theory Spec2Isabelle
  imports Complex_Main "HOL-Library.AList"
begin

section \<open>Python values\<close>

text \<open>
  A Python \<open>str\<close> is a sequence of Unicode code points, and indexing, slicing and \<open>len\<close>
  count code points. It is modelled as a list of code points, so that the corner brackets
  U+300C and U+300D used by the program are one element each.
\<close>

type_synonym pystr = "nat list"

definition ascii :: "string \<Rightarrow> pystr" where
  "ascii s = map of_char s"

text \<open>The exceptions the modelled code can raise.\<close>

datatype py_error =
    IndexError
  | KeyError
  | TypeError
  | ValueError
  | AttributeError
  | RuntimeError
  | ExternalError

text \<open>
  \<open>xs[i]\<close>: a negative index counts from the end, and an index outside the list raises
  \<open>IndexError\<close>.
\<close>

definition py_index :: "'a list \<Rightarrow> int \<Rightarrow> py_error + 'a" where
  "py_index xs i =
     (if 0 \<le> i \<and> i < int (length xs) then Inr (xs ! nat i)
      else if i < 0 \<and> - int (length xs) \<le> i then Inr (xs ! nat (int (length xs) + i))
      else Inl IndexError)"

text \<open>
  \<open>xs[i:j]\<close>: negative bounds count from the end, and both bounds are clipped to the
  list, so a slice never raises.
\<close>

definition py_bound :: "nat \<Rightarrow> int \<Rightarrow> nat" where
  "py_bound n i = (if i < 0 then nat (int n + i) else min (nat i) n)"

definition py_slice :: "'a list \<Rightarrow> int \<Rightarrow> int \<Rightarrow> 'a list" where
  "py_slice xs i j = take (py_bound (length xs) j - py_bound (length xs) i)
                          (drop (py_bound (length xs) i) xs)"

text \<open>The corner brackets U+300C and U+300D.\<close>

definition left_bracket :: nat where
  "left_bracket = 12300"

definition right_bracket :: nat where
  "right_bracket = 12301"

section \<open>Panelist (simulator/panelist.py)\<close>

datatype role = System | User | Assistant

text \<open>A chat message \<open>{'role': r, 'content': c}\<close> as built by the client's formatters.\<close>

type_synonym chat_message = "role \<times> pystr"

definition format_system_message :: "pystr \<Rightarrow> chat_message" where
  "format_system_message prompt = (System, prompt)"

definition format_user_message :: "pystr \<Rightarrow> chat_message" where
  "format_user_message prompt = (User, prompt)"

definition format_assistant_message :: "pystr \<Rightarrow> chat_message" where
  "format_assistant_message prompt = (Assistant, prompt)"

record panelist =
  panelist_id :: pystr
  name :: pystr
  persona :: pystr
  system_prompt :: pystr
  chat_log :: "chat_message list"

text \<open>
  The LLM client's \<open>generate\<close> is a call to a remote model: it may raise, and the same
  request need not get the same answer twice. It is a function of the request and of a
  state of the outside world, which it returns changed.
\<close>

type_synonym 'w llm = "'w \<Rightarrow> chat_message list \<Rightarrow> (py_error + pystr) \<times> 'w"


text \<open>\<open>Panelist.log\<close>: the prompt and the response are appended to the chat log.\<close>

definition log :: "panelist \<Rightarrow> pystr \<Rightarrow> pystr \<Rightarrow> panelist" where
  "log p user_prompt response =
     p\<lparr>chat_log := chat_log p @
          [format_user_message user_prompt, format_assistant_message response]\<rparr>"

text \<open>\<open>Panelist.generate\<close>: one request, logged.\<close>

definition generate :: "'w llm \<Rightarrow> panelist \<Rightarrow> pystr \<Rightarrow> 'w \<Rightarrow> (py_error + pystr \<times> panelist) \<times> 'w" where
  "generate client p user_prompt w =
     (case client w (chat_log p @ [format_user_message user_prompt]) of
        (Inl e, w') \<Rightarrow> (Inl e, w')
      | (Inr response, w') \<Rightarrow> (Inr (response, log p user_prompt response), w'))"

section \<open>Discussion strategist (tech/discussion_strategist.py)\<close>

subsection \<open>The numpy operations used\<close>

text \<open>
  Arrays of floats are lists of reals, and a matrix is the list of its rows. The
  embedding pipeline is a function from a text to the vector of its first token
  (\<open>embeds[k][0][0]\<close>); each text of a batch is embedded on its own.
\<close>

definition bind_err :: "'e + 'a \<Rightarrow> ('a \<Rightarrow> 'e + 'b) \<Rightarrow> 'e + 'b" where
  "bind_err m f = (case m of Inl e \<Rightarrow> Inl e | Inr x \<Rightarrow> f x)"

fun traverse_err :: "('a \<Rightarrow> 'e + 'b) \<Rightarrow> 'a list \<Rightarrow> 'e + 'b list" where
  "traverse_err f [] = Inr []"
| "traverse_err f (x # xs) =
     bind_err (f x) (\<lambda>y. bind_err (traverse_err f xs) (\<lambda>ys. Inr (y # ys)))"

text \<open>\<open>np.vstack\<close> raises on an empty list and on rows of different lengths.\<close>

definition np_vstack :: "real list list \<Rightarrow> py_error + real list list" where
  "np_vstack rows =
     (if rows = [] then Inl ValueError
      else if list_all (\<lambda>r. length r = length (hd rows)) rows then Inr rows
      else Inl ValueError)"

text \<open>
  The difference of two rows under broadcasting: equal lengths, or one of them of length
  1, which is then repeated; anything else raises.
\<close>

definition np_sub_row :: "real list \<Rightarrow> real list \<Rightarrow> py_error + real list" where
  "np_sub_row a b =
     (if length a = length b then Inr (map2 (-) a b)
      else if length b = 1 then Inr (map (\<lambda>x. x - hd b) a)
      else if length a = 1 then Inr (map (\<lambda>y. hd a - y) b)
      else Inl ValueError)"



fun argmin_scan :: "nat \<Rightarrow> real \<Rightarrow> nat \<Rightarrow> real list \<Rightarrow> nat" where
  "argmin_scan best v i [] = best"
| "argmin_scan best v i (x # xs) =
     (if x < v then argmin_scan i x (Suc i) xs else argmin_scan best v (Suc i) xs)"

definition np_argmin :: "real list \<Rightarrow> py_error + nat" where
  "np_argmin xs = (case xs of [] \<Rightarrow> Inl ValueError | x # rest \<Rightarrow> Inr (argmin_scan 0 x 1 rest))"

text \<open>
  \<open>np.linalg.norm\<close> of a matrix without an \<open>axis\<close> argument: the Frobenius norm, one
  number for the whole matrix.
\<close>

definition np_linalg_norm :: "real list list \<Rightarrow> real" where
  "np_linalg_norm m = sqrt (sum_list (map (\<lambda>v. v\<^sup>2) (concat m)))"

text \<open>\<open>sep.join(xs)\<close>.\<close>

fun py_join :: "pystr \<Rightarrow> pystr list \<Rightarrow> pystr" where
  "py_join sep [] = []"
| "py_join sep [x] = x"
| "py_join sep (x # y # ys) = x @ sep @ py_join sep (y # ys)"

subsection \<open>DiscussionEvaluator\<close>

text \<open>
  The expression \<open>np.sqrt(np.sum((a - b)**2, axis=-1) / n_dims)\<close> with
  \<open>n_dims = [row.shape[-1] for row in a]\<close>, which \<open>eval\<close> computes twice. Both matrices
  have one row per discussion.
\<close>

definition normalized_distance :: "real list list \<Rightarrow> real list list \<Rightarrow> py_error + real list" where
  "normalized_distance a b =
     bind_err (traverse_err (\<lambda>(x, y). np_sub_row x y) (zip a b)) (\<lambda>diff.
       Inr (map2 (\<lambda>d n. sqrt (sum_list (map (\<lambda>v. v\<^sup>2) d) / real n)) diff (map length a)))"

text \<open>
  One embedding call on the first texts followed by the second texts; the first matrix
  is stacked from \<open>embeds[:len(first)]\<close>, the second from \<open>embeds[-len(second):]\<close>.
\<close>

definition embed_both ::
  "(pystr \<Rightarrow> real list) \<Rightarrow> pystr list \<Rightarrow> pystr list
     \<Rightarrow> py_error + real list list \<times> real list list" where
  "embed_both embedding_pipeline first second =
     (let embeds = map embedding_pipeline (first @ second) in
      bind_err (np_vstack (py_slice embeds 0 (int (length first)))) (\<lambda>first_embeds.
      bind_err (np_vstack (py_slice embeds (- int (length second)) (int (length embeds))))
        (\<lambda>second_embeds. Inr (first_embeds, second_embeds))))"

text \<open>The base score: the discussion without its last comment against the whole discussion.\<close>

definition scores_origin :: "(pystr \<Rightarrow> real list) \<Rightarrow> pystr list list \<Rightarrow> py_error + real list" where
  "scores_origin embedding_pipeline discussions =
     (let prev_comments_strs = map (\<lambda>discussion_i. concat (py_slice discussion_i 0 (- 1)))
                                 discussions;
          all_comments_strs = map concat discussions in
      bind_err (embed_both embedding_pipeline prev_comments_strs all_comments_strs)
        (\<lambda>(prev_embeds, all_embeds). normalized_distance all_embeds prev_embeds))"

text \<open>
  The penalty: the comment before the last against the last comment; for a discussion
  of fewer than two comments both texts are replaced by the empty string. Under the
  guard the indices \<open>-2\<close> and \<open>-1\<close> are inside the list.
\<close>

definition last_comment_strs :: "pystr list list \<Rightarrow> pystr list" where
  "last_comment_strs discussions =
     map (\<lambda>discussion_i. if 2 \<le> length discussion_i
                          then discussion_i ! (length discussion_i - 2) else [])
       discussions"

definition new_comment_strs :: "pystr list list \<Rightarrow> pystr list" where
  "new_comment_strs discussions =
     map (\<lambda>discussion_i. if 2 \<le> length discussion_i
                          then discussion_i ! (length discussion_i - 1) else [])
       discussions"

definition penalty :: "(pystr \<Rightarrow> real list) \<Rightarrow> pystr list list \<Rightarrow> py_error + real list" where
  "penalty embedding_pipeline discussions =
     bind_err (embed_both embedding_pipeline (last_comment_strs discussions)
                 (new_comment_strs discussions))
       (\<lambda>(last_embeds, new_embeds).
          bind_err (normalized_distance new_embeds last_embeds) (\<lambda>distance.
            Inr (map (\<lambda>d. exp (- d)) distance)))"

text \<open>\<open>DiscussionEvaluator.eval\<close>: the product of the two, per discussion.\<close>

definition evaluator_eval :: "(pystr \<Rightarrow> real list) \<Rightarrow> pystr list list \<Rightarrow> py_error + real list" where
  "evaluator_eval embedding_pipeline discussions =
     bind_err (scores_origin embedding_pipeline discussions) (\<lambda>so.
     bind_err (penalty embedding_pipeline discussions) (\<lambda>pe.
       Inr (map2 (*) so pe)))"

subsection \<open>The score as the specification words it\<close>

text \<open>
  The root-mean-square distance: the sum of the squared differences, divided by the
  dimensionality, then the square root.
\<close>

definition rms_distance :: "real list \<Rightarrow> real list \<Rightarrow> real" where
  "rms_distance u v = sqrt (sum_list (map2 (\<lambda>a b. (a - b)\<^sup>2) u v) / real (length u))"

definition spec_impact :: "(pystr \<Rightarrow> real list) \<Rightarrow> pystr list \<Rightarrow> real" where
  "spec_impact emb d = rms_distance (emb (concat d)) (emb (concat (butlast d)))"

definition spec_penalty :: "(pystr \<Rightarrow> real list) \<Rightarrow> pystr list \<Rightarrow> real" where
  "spec_penalty emb d =
     (if length d < 2 then exp (- rms_distance (emb []) (emb []))
      else exp (- rms_distance (emb (last d)) (emb (last (butlast d)))))"

definition spec_score :: "(pystr \<Rightarrow> real list) \<Rightarrow> pystr list \<Rightarrow> real" where
  "spec_score emb d = spec_impact emb d * spec_penalty emb d"

subsection \<open>DiscussionStateJudge\<close>

record state_judge =
  state_names :: "pystr list"
  state_judge_prompt :: pystr
  state_embeds :: "real list list"

text \<open>The constructor caches the embedding of every state name.\<close>

definition new_state_judge :: "(pystr \<Rightarrow> real list) \<Rightarrow> pystr list \<Rightarrow> pystr \<Rightarrow> state_judge" where
  "new_state_judge embedding_pipeline names prompt =
     \<lparr>state_names = names, state_judge_prompt = prompt,
      state_embeds = map embedding_pipeline names\<rparr>"

text \<open>
  \<open>self.state_embeds - response_embed\<close>: the list of cached vectors becomes a matrix
  (which raises when the vectors differ in length) and the response vector is subtracted
  from every row. With no cached vector the left side is an empty array of shape
  \<open>(0,)\<close>: the subtraction raises unless the response vector has at most one entry, and
  then the lookup of the state name raises.
\<close>

definition sub_response :: "real list list \<Rightarrow> real list \<Rightarrow> py_error + real list list" where
  "sub_response embeds response_embed =
     (if embeds = [] then
        (if length response_embed \<le> 1 then Inr [] else Inl ValueError)
      else bind_err (np_vstack embeds)
             (traverse_err (\<lambda>row. np_sub_row row response_embed)))"

text \<open>
  \<open>DiscussionStateJudge.eval\<close>. \<open>safe_substitute\<close> is the standard library's template
  substitution. \<open>distances\<close> is the one number that \<open>np.linalg.norm\<close> returns, and
  \<open>np.argmin\<close> of a number is the \<open>argmin\<close> of the array holding just it.
\<close>

definition comments_placeholder :: pystr where
  "comments_placeholder = ascii ''__comments__''"

definition options_placeholder :: pystr where
  "options_placeholder = ascii ''__options__''"

definition newline :: pystr where
  "newline = [10]"

definition judge_eval ::
  "(pystr \<Rightarrow> (pystr \<times> pystr) list \<Rightarrow> pystr) \<Rightarrow> 'w llm \<Rightarrow> (pystr \<Rightarrow> real list)
     \<Rightarrow> state_judge \<Rightarrow> pystr list \<Rightarrow> 'w \<Rightarrow> (py_error + pystr) \<times> 'w" where
  "judge_eval safe_substitute llm_client embedding_pipeline judge previous_comments w =
     (let placeholder_map =
            [(comments_placeholder,
              py_join newline
                (map (\<lambda>c. [left_bracket] @ c @ [right_bracket]) previous_comments)),
             (options_placeholder, py_join newline (state_names judge))];
          prompt = safe_substitute (state_judge_prompt judge) placeholder_map;
          request = [format_system_message [], format_user_message prompt]
      in case llm_client w request of
           (Inl e, w') \<Rightarrow> (Inl e, w')
         | (Inr response, w') \<Rightarrow>
             (bind_err (sub_response (state_embeds judge) (embedding_pipeline response))
                (\<lambda>diff. let distances = np_linalg_norm diff in
                   bind_err (np_argmin [distances]) (\<lambda>i. py_index (state_names judge) (int i))),
              w'))"

text \<open>
  The state as the specification words it: the name whose cached embedding has the
  least Euclidean distance to the embedding of the answer, the first one among equals.
\<close>

definition euclidean_distance :: "real list \<Rightarrow> real list \<Rightarrow> real" where
  "euclidean_distance u v = sqrt (sum_list (map2 (\<lambda>a b. (a - b)\<^sup>2) u v))"

definition spec_classify :: "state_judge \<Rightarrow> real list \<Rightarrow> py_error + pystr" where
  "spec_classify judge answer_embed =
     bind_err (np_argmin (map (\<lambda>e. euclidean_distance e answer_embed) (state_embeds judge)))
       (\<lambda>i. py_index (state_names judge) (int i))"

subsection \<open>DiscussionStrategist\<close>

text \<open>
  The strategist holds the tail prompts, the legal tail prompt numbers per state and the
  state judge, which is \<open>None\<close> when no state names are configured. Its evaluator holds
  nothing but the embedding pipeline.
\<close>

record strategist =
  tail_prompts :: "pystr list"
  legal_prompts_dict :: "pystr \<rightharpoonup> int list"
  judge :: "state_judge option"




section \<open>Facilitator (simulator/facilitator.py)\<close>

record discussion_log_entry =
  agenda :: pystr
  log_panelist_id :: pystr
  log_panelist_name :: pystr
  log_panelist_persona :: pystr
  comment :: pystr

record debate_context =
  panelists :: "panelist list"
  panelist_names :: "pystr list"
  panelist_personas :: "pystr list"
  panelist_characteristics :: "pystr list"
  panelist_models :: "pystr list"
  ctx_system_prompt :: pystr
  first_user_prompt :: pystr
  subsequent_user_prompt :: pystr
  additional_first_user_prompt :: pystr
  additional_subsequent_user_prompt :: pystr
  additional_last_user_prompt :: pystr
  num_discussion_turn :: int
  agendas :: "pystr list"
  use_strategy :: bool
  lang :: pystr
  discussion_log :: "discussion_log_entry list"

text \<open>
  \<open>Facilitator.get_prompt_template\<close>. The returned \<open>string.Template\<close> object only wraps
  the chosen template text, so the text stands for it. \<open>turn\<close> and \<open>panelist_no\<close> are
  Python integers.
\<close>

definition get_prompt_template :: "debate_context \<Rightarrow> bool \<Rightarrow> int \<Rightarrow> int \<Rightarrow> pystr" where
  "get_prompt_template context is_continue turn panelist_no =
     (if is_continue then
        (if turn = 1 then
           (if panelist_no = 0 then additional_first_user_prompt context
            else if panelist_no = int (length (panelists context)) - 1
              then additional_last_user_prompt context
            else additional_subsequent_user_prompt context)
         else subsequent_user_prompt context)
      else
        (if panelist_no = 0 then first_user_prompt context
         else subsequent_user_prompt context))"

subsection \<open>The selection table as the specification words it\<close>

datatype position = First | Last | Middle

datatype turn_class = TurnOne | TurnLater

datatype template_kind =
    FirstUserPrompt
  | SubsequentUserPrompt
  | AdditionalFirstUserPrompt
  | AdditionalSubsequentUserPrompt
  | AdditionalLastUserPrompt

text \<open>
  The position of panelist number \<open>no\<close> among \<open>n\<close> panelists. The table lists the row for
  the first panelist before the row for the last one, so a single panelist counts as first.
\<close>

definition position_of :: "nat \<Rightarrow> int \<Rightarrow> position" where
  "position_of n no =
     (if no = 0 then First else if no = int n - 1 then Last else Middle)"

definition turn_class_of :: "int \<Rightarrow> turn_class" where
  "turn_class_of turn = (if turn = 1 then TurnOne else TurnLater)"

fun spec_selection_table :: "bool \<Rightarrow> turn_class \<Rightarrow> position \<Rightarrow> template_kind" where
  "spec_selection_table False _ First = FirstUserPrompt"
| "spec_selection_table False _ Last = SubsequentUserPrompt"
| "spec_selection_table False _ Middle = SubsequentUserPrompt"
| "spec_selection_table True TurnOne First = AdditionalFirstUserPrompt"
| "spec_selection_table True TurnOne Last = AdditionalLastUserPrompt"
| "spec_selection_table True TurnOne Middle = AdditionalSubsequentUserPrompt"
| "spec_selection_table True TurnLater _ = SubsequentUserPrompt"

fun template_of :: "debate_context \<Rightarrow> template_kind \<Rightarrow> pystr" where
  "template_of context FirstUserPrompt = first_user_prompt context"
| "template_of context SubsequentUserPrompt = subsequent_user_prompt context"
| "template_of context AdditionalFirstUserPrompt = additional_first_user_prompt context"
| "template_of context AdditionalSubsequentUserPrompt =
     additional_subsequent_user_prompt context"
| "template_of context AdditionalLastUserPrompt = additional_last_user_prompt context"

text \<open>A three-panelist context whose five templates are pairwise different.\<close>

definition example_panelist :: "nat \<Rightarrow> panelist" where
  "example_panelist i =
     \<lparr>panelist_id = [48 + i], name = [65 + i], persona = [], system_prompt = [],
      chat_log = [format_system_message []]\<rparr>"

definition example_context :: debate_context where
  "example_context =
     \<lparr>panelists = [example_panelist 0, example_panelist 1, example_panelist 2],
      panelist_names = [[65], [66], [67]],
      panelist_personas = [[], [], []],
      panelist_characteristics = [[], [], []],
      panelist_models = [[], [], []],
      ctx_system_prompt = [],
      first_user_prompt = [1],
      subsequent_user_prompt = [2],
      additional_first_user_prompt = [3],
      additional_subsequent_user_prompt = [4],
      additional_last_user_prompt = [5],
      num_discussion_turn = 2,
      agendas = [],
      use_strategy = False,
      lang = ascii ''en'',
      discussion_log = []\<rparr>"


section \<open>ConnectionManager (connection_manager.py)\<close>

datatype message_type = TMessage | TSystemInfo | TOptInfo

text \<open>
  A \<open>datetime\<close> value, represented by the two renderings the program takes of it:
  \<open>str(now.timestamp())\<close> and \<open>now.strftime('%H:%M')\<close>.
\<close>

record datetime =
  timestamp_str :: pystr
  hhmm :: pystr

record participant_config =
  pc_name :: pystr
  pc_image :: pystr
  pc_voice_id :: pystr
  pc_voice_pitch :: pystr

text \<open>
  The handover dictionary: the entries the caller put there, and the key
  \<open>'participants_config'\<close> that \<open>start_discussion\<close> assigns.
\<close>

record handover =
  entries :: "(pystr \<times> pystr) list"
  participants_config :: "participant_config list option"

record message =
  msg_type :: "message_type option"
  user_name :: "pystr option"
  msg_text :: "pystr option"
  timestamp :: "pystr option"
  msg_time :: "pystr option"
  user_img :: "pystr option"
  handover_datum :: "handover option"

text \<open>The \<open>Message(...)\<close> constructor: fields that are not given default to \<open>None\<close>.\<close>

definition Message :: "message_type \<Rightarrow> pystr \<Rightarrow> pystr \<Rightarrow> handover option \<Rightarrow> message" where
  "Message ty user txt h =
     \<lparr>msg_type = Some ty, user_name = Some user, msg_text = Some txt, timestamp = None,
      msg_time = None, user_img = None, handover_datum = h\<rparr>"

text \<open>A cached transcript: per agenda, the list of (type, panelist name, comment).\<close>

type_synonym cache = "(pystr \<times> (message_type \<times> pystr \<times> pystr) list) list"

text \<open>The arguments of a \<open>do_discussion\<close> coroutine handed to \<open>asyncio.create_task\<close>.\<close>

record discussion_task =
  task_agenda :: pystr
  task_is_continue :: bool
  task_use_strategy :: bool
  task_lang :: pystr
  task_cache :: "cache option"

type_synonym websocket = nat

text \<open>
  The state of a \<open>ConnectionManager\<close>. An attribute that \<open>__init__\<close> does not set
  (\<open>should_stop\<close>, \<open>user_name\<close>, \<open>image_dict\<close>, \<open>discussion_module\<close>) is \<open>None\<close> until it
  is assigned. \<open>scheduled_tasks\<close> are the coroutines this manager has given to the event
  loop with \<open>asyncio.create_task\<close>; none of them has run while the creating call has not
  reached an \<open>await\<close>.
\<close>

record cm_state =
  active_connections :: "(websocket \<times> (pystr \<times> pystr) list) list"
  messages :: "message list"
  accessible_messages :: "message list"
  accessible_index :: int
  is_running_discussion :: bool
  should_stop :: "bool option"
  cm_user_name :: "pystr option"
  image_dict :: "(pystr \<rightharpoonup> pystr) option"
  discussion_module :: "debate_context option"
  scheduled_tasks :: "discussion_task list"

definition reset_message_db :: "cm_state \<Rightarrow> cm_state" where
  "reset_message_db s = s\<lparr>messages := [], accessible_messages := [], accessible_index := - 1\<rparr>"

definition connection_manager_init :: cm_state where
  "connection_manager_init =
     \<lparr>active_connections = [], messages = [], accessible_messages = [],
      accessible_index = - 1, is_running_discussion = False, should_stop = None,
      cm_user_name = None, image_dict = None, discussion_module = None,
      scheduled_tasks = []\<rparr>"

text \<open>
  \<open>broadcast\<close>. Whether \<open>send_text\<close> to a socket succeeds is the environment's
  (\<open>send_ok\<close>). A failing send pops the connection from the dictionary that the loop is
  iterating over, so the loop's next step raises \<open>RuntimeError\<close> (dictionary changed size
  during iteration), also when the failing connection was the last one.
\<close>

definition broadcast :: "(websocket \<Rightarrow> bool) \<Rightarrow> cm_state \<Rightarrow> (py_error + unit) \<times> cm_state" where
  "broadcast send_ok s =
     (case find (\<lambda>c. \<not> send_ok (fst c)) (active_connections s) of
        None \<Rightarrow> (Inr (), s)
      | Some c \<Rightarrow>
          (Inl RuntimeError,
           s\<lparr>active_connections := AList.delete (fst c) (active_connections s)\<rparr>))"

definition get_user_img :: "cm_state \<Rightarrow> pystr option \<Rightarrow> py_error + pystr" where
  "get_user_img s nm =
     (case image_dict s of
        None \<Rightarrow> Inl AttributeError
      | Some d \<Rightarrow>
          (case nm of
             None \<Rightarrow> Inr []
           | Some n \<Rightarrow>
               (case d n of
                  Some img \<Rightarrow> Inr img
                | None \<Rightarrow> if n = ascii ''system'' then Inr (ascii ''/images/system.png'')
                          else Inr [])))"


text \<open>
  \<open>push_message\<close>. Reading \<open>msg_text[0]\<close> raises \<open>TypeError\<close> on \<open>None\<close> and
  \<open>IndexError\<close> on the empty string; a message whose text starts with the left and ends
  with the right bracket gets the slice \<open>msg_text[1:-2]\<close>. An exception leaves both stores
  as they were.
\<close>

definition strip_brackets :: "pystr \<Rightarrow> pystr" where
  "strip_brackets t =
     (if hd t = left_bracket \<and> last t = right_bracket then py_slice t 1 (- 2) else t)"

definition push_message :: "datetime \<Rightarrow> message \<Rightarrow> cm_state \<Rightarrow> py_error + cm_state" where
  "push_message now new_message s =
     (case msg_text new_message of
        None \<Rightarrow> Inl TypeError
      | Some t \<Rightarrow>
          if t = [] then Inl IndexError
          else
            (case get_user_img s (user_name new_message) of
               Inl e \<Rightarrow> Inl e
             | Inr img \<Rightarrow>
                 Inr (s\<lparr>messages := messages s @
                        [new_message\<lparr>msg_text := Some (strip_brackets t),
                                     timestamp := Some (timestamp_str now),
                                     msg_time := Some (hhmm now),
                                     user_img := Some img\<rparr>]\<rparr>)))"

text \<open>
  \<open>add_accessible_message\<close>. The stores are updated before the broadcast, so they keep
  the new entry also when the broadcast raises.
\<close>

definition add_accessible_message ::
  "(websocket \<Rightarrow> bool) \<Rightarrow> cm_state \<Rightarrow> (py_error + message list) \<times> cm_state" where
  "add_accessible_message send_ok s =
     (if int (length (messages s)) \<le> accessible_index s + 1 then (Inr (accessible_messages s), s)
      else
        (case py_index (messages s) (accessible_index s + 1) of
           Inl e \<Rightarrow> (Inl e, s)
         | Inr m \<Rightarrow>
             (case broadcast send_ok
                     (s\<lparr>accessible_messages := accessible_messages s @ [m],
                        accessible_index := accessible_index s + 1\<rparr>) of
                (Inl e, s') \<Rightarrow> (Inl e, s')
              | (Inr _, s') \<Rightarrow> (Inr (accessible_messages s'), s'))))"

text \<open>
  Sequences of \<open>push\<close> and \<open>reveal_next\<close> calls on one manager. An exception goes to the
  caller of that one call; the manager lives on in the state the call left.
\<close>

datatype cm_op = Push datetime message | RevealNext

definition exec_op :: "(websocket \<Rightarrow> bool) \<Rightarrow> cm_op \<Rightarrow> cm_state \<Rightarrow> cm_state" where
  "exec_op send_ok op s =
     (case op of
        Push now m \<Rightarrow> (case push_message now m s of Inl _ \<Rightarrow> s | Inr s' \<Rightarrow> s')
      | RevealNext \<Rightarrow> snd (add_accessible_message send_ok s))"

definition run_ops :: "(websocket \<Rightarrow> bool) \<Rightarrow> cm_op list \<Rightarrow> cm_state \<Rightarrow> cm_state" where
  "run_ops send_ok ops s = fold (exec_op send_ok) ops s"


subsection \<open>start_discussion\<close>

text \<open>
  The configuration dictionary and its per-participant dictionaries, by the keys that
  \<open>start_discussion\<close> reads. \<open>None\<close> is a key that is absent, which raises \<open>KeyError\<close>
  where the key is read with \<open>d[key]\<close>.
\<close>

record participant_datum =
  d_name :: "pystr option"
  d_image :: "pystr option"
  d_voice_id :: "pystr option"
  d_voice_pitch :: "pystr option"
  d_persona :: "pystr option"
  d_characteristics :: "pystr option"
  d_model :: "pystr option"

record config_message =
  cfg_user :: "participant_datum option"
  cfg_panelists :: "participant_datum list option"
  cfg_cache :: "pystr option"
  cfg_system_prompt :: "pystr option"
  cfg_first_user_prompt :: "pystr option"
  cfg_subsequent_user_prompt :: "pystr option"
  cfg_additional_first_user_prompt :: "pystr option"
  cfg_additional_subsequent_user_prompt :: "pystr option"
  cfg_additional_last_user_prompt :: "pystr option"
  cfg_agenda :: "pystr option"
  cfg_tech_enable :: "bool option"
  cfg_lang :: "pystr option"

text \<open>The keyword arguments of the \<open>Facilitator\<close> constructor.\<close>

record facilitator_args =
  fa_panelist_names :: "pystr list"
  fa_panelist_personas :: "pystr list"
  fa_panelist_characteristics :: "pystr list"
  fa_panelist_models :: "pystr list"
  fa_system_prompt :: pystr
  fa_first_user_prompt :: pystr
  fa_subsequent_user_prompt :: pystr
  fa_additional_first_user_prompt :: pystr
  fa_additional_subsequent_user_prompt :: pystr
  fa_additional_last_user_prompt :: pystr
  fa_num_discussion_turn :: int

text \<open>
  What \<open>start_discussion\<close> takes from outside the program: the cache directory
  (\<open>read_cache f\<close> is \<open>None\<close> when \<open>f\<close> is no file there, otherwise what \<open>json.load\<close> gives
  or raises) and the \<open>Facilitator\<close> constructor, which reads configuration files and
  loads models and may raise. The facilitator object is represented by its context.
\<close>

record environment =
  read_cache :: "pystr \<Rightarrow> (py_error + cache) option"
  new_facilitator :: "facilitator_args \<Rightarrow> py_error + debate_context"

datatype start_result = Failed | Succeeded bool

text \<open>\<open>d[key]\<close> on a dictionary.\<close>

definition item :: "'a option \<Rightarrow> py_error + 'a" where
  "item v = (case v of None \<Rightarrow> Inl KeyError | Some x \<Rightarrow> Inr x)"

definition participant_config_of :: "participant_datum \<Rightarrow> py_error + participant_config" where
  "participant_config_of datum_i =
     bind_err (item (d_name datum_i)) (\<lambda>n.
     bind_err (item (d_image datum_i)) (\<lambda>i.
     bind_err (item (d_voice_id datum_i)) (\<lambda>v.
     bind_err (item (d_voice_pitch datum_i)) (\<lambda>p.
       Inr \<lparr>pc_name = n, pc_image = i, pc_voice_id = v, pc_voice_pitch = p\<rparr>))))"

text \<open>
  The dictionary comprehension \<open>{datum['name']: datum['image'] for datum in ...}\<close>: a later
  entry with the same name replaces an earlier one.
\<close>

definition image_dict_of :: "participant_config list \<Rightarrow> (pystr \<rightharpoonup> pystr)" where
  "image_dict_of ps = map_of (rev (map (\<lambda>d. (pc_name d, pc_image d)) ps))"

definition load_cache :: "environment \<Rightarrow> config_message \<Rightarrow> py_error + cache option" where
  "load_cache env config =
     (case cfg_cache config of
        None \<Rightarrow> Inr None
      | Some f \<Rightarrow>
          (case read_cache env f of
             None \<Rightarrow> Inr None
           | Some (Inl e) \<Rightarrow> Inl e
           | Some (Inr c) \<Rightarrow> Inr (Some c)))"

definition facilitator_args_of :: "config_message \<Rightarrow> py_error + facilitator_args" where
  "facilitator_args_of config =
     bind_err (item (cfg_panelists config)) (\<lambda>ps.
     bind_err (traverse_err (\<lambda>e. item (d_name e)) ps) (\<lambda>names.
     bind_err (traverse_err (\<lambda>e. item (d_persona e)) ps) (\<lambda>personas.
     bind_err (traverse_err (\<lambda>e. item (d_characteristics e)) ps) (\<lambda>chars.
     bind_err (traverse_err (\<lambda>e. item (d_model e)) ps) (\<lambda>models.
     bind_err (item (cfg_system_prompt config)) (\<lambda>sp.
     bind_err (item (cfg_first_user_prompt config)) (\<lambda>fp.
     bind_err (item (cfg_subsequent_user_prompt config)) (\<lambda>sq.
     bind_err (item (cfg_additional_first_user_prompt config)) (\<lambda>af.
     bind_err (item (cfg_additional_subsequent_user_prompt config)) (\<lambda>asq.
     bind_err (item (cfg_additional_last_user_prompt config)) (\<lambda>al.
       Inr \<lparr>fa_panelist_names = names, fa_panelist_personas = personas,
            fa_panelist_characteristics = chars, fa_panelist_models = models,
            fa_system_prompt = sp, fa_first_user_prompt = fp,
            fa_subsequent_user_prompt = sq, fa_additional_first_user_prompt = af,
            fa_additional_subsequent_user_prompt = asq,
            fa_additional_last_user_prompt = al,
            fa_num_discussion_turn = 1\<rparr>)))))))))))"

definition discussion_task_of :: "config_message \<Rightarrow> cache option \<Rightarrow> py_error + discussion_task" where
  "discussion_task_of config c =
     bind_err (item (cfg_agenda config)) (\<lambda>a.
     bind_err (item (cfg_tech_enable config)) (\<lambda>u.
     bind_err (item (cfg_lang config)) (\<lambda>l.
       Inr \<lparr>task_agenda = a, task_is_continue = False, task_use_strategy = u,
            task_lang = l, task_cache = c\<rparr>)))"

text \<open>The text of the opening message, four code points.\<close>

definition discussion_started_text :: pystr where
  "discussion_started_text = [35696, 35542, 38283, 22987]"

text \<open>
  The body of the \<open>try\<close> block of \<open>start_discussion\<close>: the result or the exception, and
  the state as the statements up to there have left it.
\<close>

definition start_discussion_try ::
  "environment \<Rightarrow> datetime \<Rightarrow> config_message \<Rightarrow> handover option \<Rightarrow> cm_state
     \<Rightarrow> (py_error + start_result) \<times> cm_state" where
  "start_discussion_try env now config hand s =
     (case bind_err (item (cfg_user config)) (\<lambda>u.
           bind_err (item (cfg_panelists config)) (\<lambda>ps.
           bind_err (traverse_err participant_config_of (u # ps)) (\<lambda>pcs.
           bind_err (item (d_name u)) (\<lambda>n. Inr (n, pcs))))) of
        Inl e \<Rightarrow> (Inl e, s)
      | Inr (n, pcs) \<Rightarrow>
          (let s1 = reset_message_db
                      (s\<lparr>cm_user_name := Some n, image_dict := Some (image_dict_of pcs)\<rparr>)
           in case hand of
                None \<Rightarrow> (Inl TypeError, s1)
              | Some h \<Rightarrow>
                  (case push_message now
                          (Message TSystemInfo (ascii ''system'') discussion_started_text
                             (Some (h\<lparr>participants_config := Some pcs\<rparr>))) s1 of
                     Inl e \<Rightarrow> (Inl e, s1)
                   | Inr s2 \<Rightarrow>
                       (case load_cache env config of
                          Inl e \<Rightarrow> (Inl e, s2)
                        | Inr c \<Rightarrow>
                            (case bind_err (facilitator_args_of config) (new_facilitator env) of
                               Inl e \<Rightarrow> (Inl e, s2)
                             | Inr f \<Rightarrow>
                                 (let s3 = s2\<lparr>discussion_module := Some f\<rparr>
                                  in case discussion_task_of config c of
                                       Inl e \<Rightarrow> (Inl e, s3)
                                     | Inr task \<Rightarrow>
                                         (Inr (Succeeded (c \<noteq> None)),
                                          s3\<lparr>scheduled_tasks :=
                                               scheduled_tasks s3 @ [task]\<rparr>)))))))"

text \<open>
  \<open>start_discussion\<close>: the busy check returns before the \<open>try\<close> statement; past it the
  flag is raised, the stop flag lowered, the body run, and the \<open>finally\<close> clause lowers the
  flag whether the body returned or raised.
\<close>

definition start_discussion ::
  "environment \<Rightarrow> datetime \<Rightarrow> config_message \<Rightarrow> handover option \<Rightarrow> cm_state
     \<Rightarrow> (py_error + start_result) \<times> cm_state" where
  "start_discussion env now config hand s =
     (if is_running_discussion s then (Inr Failed, s)
      else
        (case start_discussion_try env now config hand
                (s\<lparr>is_running_discussion := True, should_stop := Some False\<rparr>) of
           (r, s') \<Rightarrow> (r, s'\<lparr>is_running_discussion := False\<rparr>)))"

section \<open>RoomManager (room_manager.py)\<close>

record room =
  room_id :: int
  room_name :: pystr
  created_at :: datetime
  connection_manager :: cm_state

definition DEFAULT_ROOM_ID :: int where
  "DEFAULT_ROOM_ID = 1"

text \<open>
  The room registry is a dictionary from room id to room, kept in insertion order.
  \<open>create_room\<close> returns the new room and the registry with it.
\<close>

type_synonym room_db = "(int \<times> room) list"

definition create_room :: "datetime \<Rightarrow> pystr \<Rightarrow> room_db \<Rightarrow> room \<times> room_db" where
  "create_room now nm db =
     (let rid = (if length db = 0 then DEFAULT_ROOM_ID else Max (set (map fst db)) + 1);
          created_room = \<lparr>room_id = rid, room_name = nm, created_at = now,
                          connection_manager = connection_manager_init\<rparr>
      in (created_room, AList.update rid created_room db))"

definition delete_room :: "int \<Rightarrow> room_db \<Rightarrow> room option \<times> room_db" where
  "delete_room rid db =
     (if rid \<notin> set (map fst db) then (None, db)
      else (map_of db rid, AList.delete rid db))"

text \<open>
  Sequences of create and delete calls, with the list of the ids that \<open>create_room\<close> has
  assigned so far, oldest first. The constructor starts from the empty registry and
  creates one room named \<open>Room 1\<close>.
\<close>

datatype rm_op = CreateRoom datetime pystr | DeleteRoom int

fun rm_step :: "rm_op \<Rightarrow> room_db \<times> int list \<Rightarrow> room_db \<times> int list" where
  "rm_step (CreateRoom now nm) (db, assigned) =
     (case create_room now nm db of (r, db') \<Rightarrow> (db', assigned @ [room_id r]))"
| "rm_step (DeleteRoom rid) (db, assigned) = (snd (delete_room rid db), assigned)"

definition room_manager_init :: "datetime \<Rightarrow> room_db \<times> int list" where
  "room_manager_init now = rm_step (CreateRoom now (ascii ''Room 1'')) ([], [])"

definition rm_run :: "datetime \<Rightarrow> rm_op list \<Rightarrow> room_db \<times> int list" where
  "rm_run now ops = fold rm_step ops (room_manager_init now)"

section \<open>Invariants, specification predicates and example inputs\<close>

subsection \<open>Consistency of the two stores, and an example run\<close>

text \<open>
  The visible store is the first \<open>accessible_index + 1\<close> entries of the full store.
\<close>

definition stores_consistent :: "cm_state \<Rightarrow> bool" where
  "stores_consistent s \<longleftrightarrow>
     accessible_index s = int (length (accessible_messages s)) - 1 \<and>
     accessible_messages s = take (length (accessible_messages s)) (messages s) \<and>
     length (accessible_messages s) \<le> length (messages s)"

definition example_now :: datetime where
  "example_now = \<lparr>timestamp_str = ascii ''1762214400.0'', hhmm = ascii ''09:00''\<rparr>"

definition ready_state :: cm_state where
  "ready_state = connection_manager_init\<lparr>image_dict := Some Map.empty\<rparr>"

definition text_message :: "nat \<Rightarrow> message" where
  "text_message c = Message TMessage [65] [c] None"

definition five_pushes_three_reveals :: "cm_op list" where
  "five_pushes_three_reveals =
     map (\<lambda>c. Push example_now (text_message c)) [97, 98, 99, 100, 101] @
     replicate 3 RevealNext"

subsection \<open>Example inputs of start_discussion and push_message\<close>

definition bracketed_message :: message where
  "bracketed_message = Message TMessage [65] [12300, 97, 98, 99, 12301] None"

definition busy_state :: cm_state where
  "busy_state = ready_state\<lparr>is_running_discussion := True\<rparr>"

definition example_datum :: "nat \<Rightarrow> participant_datum" where
  "example_datum i =
     \<lparr>d_name = Some [65 + i], d_image = Some (ascii ''/images/a.png''), d_voice_id = Some [49],
      d_voice_pitch = Some [48], d_persona = Some [], d_characteristics = Some [],
      d_model = Some (ascii ''OpenAI'')\<rparr>"

definition example_config :: config_message where
  "example_config =
     \<lparr>cfg_user = Some (example_datum 20),
      cfg_panelists = Some [example_datum 0, example_datum 1],
      cfg_cache = None,
      cfg_system_prompt = Some [],
      cfg_first_user_prompt = Some [1],
      cfg_subsequent_user_prompt = Some [2],
      cfg_additional_first_user_prompt = Some [3],
      cfg_additional_subsequent_user_prompt = Some [4],
      cfg_additional_last_user_prompt = Some [5],
      cfg_agenda = Some [88],
      cfg_tech_enable = Some False,
      cfg_lang = Some (ascii ''en'')\<rparr>"

definition example_env :: environment where
  "example_env = \<lparr>read_cache = (\<lambda>_. None), new_facilitator = (\<lambda>_. Inr example_context)\<rparr>"

definition example_handover :: handover where
  "example_handover = \<lparr>entries = [], participants_config = None\<rparr>"

subsection \<open>Invariant and example of the room registry\<close>

text \<open>
  Every id in the registry is at least 1 and has been assigned, the ids in the registry
  are pairwise different, and the first id that was assigned is 1.
\<close>

definition ids_from_one :: "room_db \<times> int list \<Rightarrow> bool" where
  "ids_from_one st \<longleftrightarrow>
     list_all (\<lambda>k. 1 \<le> k) (map fst (fst st)) \<and> snd st \<noteq> [] \<and> hd (snd st) = 1 \<and>
     distinct (map fst (fst st)) \<and> list_all (\<lambda>k. k \<in> set (snd st)) (map fst (fst st))"

text \<open>Create a second room, delete it, create another one.\<close>

definition reuse_ops :: "rm_op list" where
  "reuse_ops = [CreateRoom example_now (ascii ''Room 2''), DeleteRoom 2,
                CreateRoom example_now (ascii ''Room 3'')]"

subsection \<open>Example inputs of the evaluator\<close>

text \<open>An embedding of dimension 1: the length of the text.\<close>

definition example_embedding :: "pystr \<Rightarrow> real list" where
  "example_embedding t = [real (length t)]"

definition example_discussions :: "pystr list list" where
  "example_discussions = [[[97], [98, 99]], [[97]]]"

subsection \<open>Specification predicates of the strategist, and example inputs\<close>






text \<open>
  Two states \<open>a\<close> and \<open>b\<close> with the embeddings \<open>[0]\<close> and \<open>[1]\<close>, and a client whose
  answer is \<open>b\<close>.
\<close>

definition two_state_embedding :: "pystr \<Rightarrow> real list" where
  "two_state_embedding t = (if t = [98] then [1] else [0])"

definition two_state_judge :: state_judge where
  "two_state_judge = new_state_judge two_state_embedding [[97], [98]] []"

definition answer_b :: "unit llm" where
  "answer_b w request = (Inr [98], w)"

section \<open>Verified properties\<close>

subsection \<open>Prompt template selection\<close>

text \<open>
  Claim C5. For every continuation flag, every turn number from 1 on and every panelist
  number, \<open>get_prompt_template\<close> returns the template that the selection table of the
  specification gives for the flag, the turn (1 or later) and the position (first, last,
  middle) of the panelist: without continuation the first panelist gets
  \<open>first_user_prompt\<close> and all others \<open>subsequent_user_prompt\<close>; in turn 1 of a
  continuation the first, last and middle panelists get the three \<open>additional\<close>
  templates; in later turns of a continuation everybody gets \<open>subsequent_user_prompt\<close>.
\<close>

theorem get_prompt_template_table:
  "1 \<le> turn \<Longrightarrow>
   get_prompt_template context is_continue turn panelist_no =
     template_of context
       (spec_selection_table is_continue (turn_class_of turn)
          (position_of (length (panelists context)) panelist_no))"
  by (cases is_continue)
     (simp_all add: get_prompt_template_def turn_class_of_def position_of_def)

theorem get_prompt_template_table_witness:
  "(1::int) \<le> 1 \<and>
   get_prompt_template example_context True 1 2 = [5] \<and>
   template_of example_context
     (spec_selection_table True (turn_class_of 1)
        (position_of (length (panelists example_context)) 2)) = [5]"
  using get_prompt_template_table [of 1 example_context True 2]
  by (simp add: example_context_def turn_class_of_def position_of_def)

subsection \<open>Visible messages\<close>

lemma sc_reset: "stores_consistent (reset_message_db s)"
  by (simp add: stores_consistent_def reset_message_db_def)

lemma broadcast_stores:
  "messages (snd (broadcast send_ok s)) = messages s"
  "accessible_messages (snd (broadcast send_ok s)) = accessible_messages s"
  "accessible_index (snd (broadcast send_ok s)) = accessible_index s"
  by (simp_all add: broadcast_def split: option.splits)

lemma add_accessible_state:
  assumes "\<not> int (length (messages s)) \<le> accessible_index s + 1"
    and "py_index (messages s) (accessible_index s + 1) = Inr m"
  shows "snd (add_accessible_message send_ok s) =
           snd (broadcast send_ok (s\<lparr>accessible_messages := accessible_messages s @ [m],
                                      accessible_index := accessible_index s + 1\<rparr>))"
  using assms by (simp add: add_accessible_message_def split: prod.splits sum.splits)

lemma reveal_stores:
  assumes "stores_consistent s"
  shows "if length (accessible_messages s) < length (messages s)
     then accessible_messages (snd (add_accessible_message send_ok s)) =
            take (Suc (length (accessible_messages s))) (messages s) \<and>
          messages (snd (add_accessible_message send_ok s)) = messages s \<and>
          accessible_index (snd (add_accessible_message send_ok s)) = accessible_index s + 1
     else snd (add_accessible_message send_ok s) = s"
proof (cases "length (accessible_messages s) < length (messages s)")
  case True
  let ?n = "length (accessible_messages s)"
  from assms have idx: "accessible_index s + 1 = int ?n"
    and pre: "accessible_messages s = take ?n (messages s)"
    by (simp_all add: stores_consistent_def)
  have get: "py_index (messages s) (accessible_index s + 1) = Inr (messages s ! ?n)"
    using True idx by (simp add: py_index_def)
  have app: "accessible_messages s @ [messages s ! ?n] = take (Suc ?n) (messages s)"
    using True pre by (metis take_Suc_conv_app_nth)
  have "\<not> int (length (messages s)) \<le> accessible_index s + 1"
    using True idx by simp
  from add_accessible_state [OF this get]
  show ?thesis
    using True app by (simp add: broadcast_stores)
next
  case False
  with assms show ?thesis
    by (simp add: add_accessible_message_def stores_consistent_def)
qed


lemma sc_push:
  assumes "stores_consistent s" and "push_message now m s = Inr s'"
  shows "stores_consistent s'"
proof -
  from assms(2) obtain m' where s': "s' = s\<lparr>messages := messages s @ [m']\<rparr>"
    by (auto simp: push_message_def split: option.splits if_splits sum.splits)
  with assms(1) show ?thesis
    by (simp add: stores_consistent_def)
qed

lemma sc_reveal:
  assumes "stores_consistent s"
  shows "stores_consistent (snd (add_accessible_message send_ok s))"
proof (cases "length (accessible_messages s) < length (messages s)")
  case True
  with reveal_stores [OF assms, of send_ok] assms show ?thesis
    by (simp add: stores_consistent_def)
next
  case False
  with reveal_stores [OF assms, of send_ok] assms show ?thesis
    by simp
qed

lemma sc_exec_op: "stores_consistent s \<Longrightarrow> stores_consistent (exec_op send_ok op s)"
  by (cases op) (auto simp: exec_op_def sc_reveal split: sum.splits intro: sc_push)

lemma sc_fold: "stores_consistent s \<Longrightarrow> stores_consistent (fold (exec_op send_ok) ops s)"
  by (induction ops arbitrary: s) (simp_all add: sc_exec_op)

lemma sc_run_ops: "stores_consistent (run_ops send_ok ops (reset_message_db s0))"
  unfolding run_ops_def by (rule sc_fold) (rule sc_reset)

lemma exec_push_text:
  assumes "image_dict s = Some Map.empty"
  shows "\<exists>m. msg_text m = Some [c] \<and>
           exec_op send_ok (Push now (text_message c)) s = s\<lparr>messages := messages s @ [m]\<rparr>"
proof -
  have "exec_op send_ok (Push now (text_message c)) s =
          s\<lparr>messages := messages s @
             [(text_message c)\<lparr>msg_text := Some [c], timestamp := Some (timestamp_str now),
                msg_time := Some (hhmm now), user_img := Some []\<rparr>]\<rparr>"
    using assms
    by (auto simp add: exec_op_def push_message_def text_message_def Message_def
        get_user_img_def strip_brackets_def left_bracket_def right_bracket_def ascii_def)
  then show ?thesis
    by (intro exI [of _ "(text_message c)\<lparr>msg_text := Some [c],
          timestamp := Some (timestamp_str now), msg_time := Some (hhmm now),
          user_img := Some []\<rparr>"]) simp
qed

lemma fold_push_texts:
  assumes "image_dict s = Some Map.empty"
  shows "\<exists>ms. map msg_text ms = map (\<lambda>c. Some [c]) cs \<and>
           fold (exec_op send_ok) (map (\<lambda>c. Push now (text_message c)) cs) s =
             s\<lparr>messages := messages s @ ms\<rparr>"
  using assms
proof (induction cs arbitrary: s)
  case Nil
  then show ?case by simp
next
  case (Cons c cs)
  from exec_push_text [OF Cons.prems, of c send_ok now]
  obtain m where m: "msg_text m = Some [c]"
    and step: "exec_op send_ok (Push now (text_message c)) s = s\<lparr>messages := messages s @ [m]\<rparr>"
    by blast
  have "image_dict (s\<lparr>messages := messages s @ [m]\<rparr>) = Some Map.empty"
    using Cons.prems by simp
  from Cons.IH [OF this]
  obtain ms where ms: "map msg_text ms = map (\<lambda>c. Some [c]) cs"
    and rest: "fold (exec_op send_ok) (map (\<lambda>c. Push now (text_message c)) cs)
                 (s\<lparr>messages := messages s @ [m]\<rparr>) =
               s\<lparr>messages := messages s @ [m], messages := (messages s @ [m]) @ ms\<rparr>"
    by auto
  show ?case
    using m ms step rest by (intro exI [of _ "m # ms"]) simp
qed

lemma fold_reveals:
  assumes "stores_consistent s"
  shows "messages (fold (exec_op send_ok) (replicate k RevealNext) s) = messages s \<and>
         accessible_messages (fold (exec_op send_ok) (replicate k RevealNext) s) =
           take (min (length (accessible_messages s) + k) (length (messages s))) (messages s)"
  using assms
proof (induction k arbitrary: s)
  case 0
  then show ?case by (simp add: stores_consistent_def min_def)
next
  case (Suc k)
  let ?s' = "snd (add_accessible_message send_ok s)"
  have sc': "stores_consistent ?s'" using Suc.prems by (rule sc_reveal)
  have step: "exec_op send_ok RevealNext s = ?s'" by (simp add: exec_op_def)
  show ?case
  proof (cases "length (accessible_messages s) < length (messages s)")
    case True
    with reveal_stores [OF Suc.prems, of send_ok]
    have "accessible_messages ?s' = take (Suc (length (accessible_messages s))) (messages s)"
      and "messages ?s' = messages s" by simp_all
    with Suc.IH [OF sc'] True show ?thesis
      by (simp add: step min_def)
  next
    case False
    with reveal_stores [OF Suc.prems, of send_ok] have "?s' = s" by simp
    with Suc.IH [OF Suc.prems] False Suc.prems show ?thesis
      by (simp add: step min_def stores_consistent_def)
  qed
qed

text \<open>
  Claim C4. After every sequence of \<open>push\<close> and \<open>reveal_next\<close> calls on a manager whose
  stores have been reset, the visible store is a prefix of the full store, and one more
  \<open>reveal_next\<close> extends the visible prefix by exactly the next entry of the full store
  when the prefix is shorter than the full store, and leaves the whole state as it is
  otherwise. The witness pushes five messages and reveals three times: exactly the first
  three are visible, in push order.
\<close>

theorem visible_is_prefix:
  "accessible_messages (run_ops send_ok ops (reset_message_db s0)) =
     take (length (accessible_messages (run_ops send_ok ops (reset_message_db s0))))
          (messages (run_ops send_ok ops (reset_message_db s0))) \<and>
   (if length (accessible_messages (run_ops send_ok ops (reset_message_db s0)))
         < length (messages (run_ops send_ok ops (reset_message_db s0)))
    then accessible_messages
           (exec_op send_ok RevealNext (run_ops send_ok ops (reset_message_db s0))) =
         take (Suc (length (accessible_messages (run_ops send_ok ops (reset_message_db s0)))))
              (messages (run_ops send_ok ops (reset_message_db s0))) \<and>
         messages (exec_op send_ok RevealNext (run_ops send_ok ops (reset_message_db s0))) =
         messages (run_ops send_ok ops (reset_message_db s0))
    else exec_op send_ok RevealNext (run_ops send_ok ops (reset_message_db s0)) =
         run_ops send_ok ops (reset_message_db s0))"
proof -
  let ?s = "run_ops send_ok ops (reset_message_db s0)"
  have sc: "stores_consistent ?s" by (rule sc_run_ops)
  then have "accessible_messages ?s = take (length (accessible_messages ?s)) (messages ?s)"
    by (simp add: stores_consistent_def)
  moreover have "exec_op send_ok RevealNext ?s = snd (add_accessible_message send_ok ?s)"
    by (simp add: exec_op_def)
  ultimately show ?thesis
    using reveal_stores [OF sc, of send_ok] by (simp split: if_splits)
qed

theorem visible_is_prefix_witness:
  "map msg_text (accessible_messages
     (run_ops (\<lambda>_. True) five_pushes_three_reveals (reset_message_db ready_state))) =
   [Some [97], Some [98], Some [99]] \<and>
   map msg_text (messages
     (run_ops (\<lambda>_. True) five_pushes_three_reveals (reset_message_db ready_state))) =
   [Some [97], Some [98], Some [99], Some [100], Some [101]]"
proof -
  let ?ok = "\<lambda>_::websocket. True"
  let ?init = "reset_message_db ready_state"
  let ?s = "run_ops ?ok five_pushes_three_reveals ?init"
  have "image_dict ?init = Some Map.empty"
    by (simp add: reset_message_db_def ready_state_def)
  from fold_push_texts [OF this, of "[97, 98, 99, 100, 101]" ?ok example_now]
  obtain ms where ms': "map msg_text ms = map (\<lambda>c. Some [c]) [97, 98, 99, 100, 101]"
    and s1: "fold (exec_op ?ok) (map (\<lambda>c. Push example_now (text_message c)) [97, 98, 99, 100, 101]) ?init
             = ?init\<lparr>messages := messages ?init @ ms\<rparr>"
    by blast
  from ms' have ms: "map msg_text ms = [Some [97], Some [98], Some [99], Some [100], Some [101]]"
    by simp
  have ms0: "messages ?init = []" and acc0: "accessible_messages ?init = []"
    by (simp_all add: reset_message_db_def)
  have "length (map msg_text ms) = 5" unfolding ms by simp
  then have len: "length ms = 5" by simp
  have run: "?s = fold (exec_op ?ok) (replicate 3 RevealNext) (?init\<lparr>messages := messages ?init @ ms\<rparr>)"
    unfolding run_ops_def five_pushes_three_reveals_def fold_append using s1 by simp
  have "stores_consistent (?init\<lparr>messages := messages ?init @ ms\<rparr>)"
    using sc_reset [of ready_state] by (simp add: stores_consistent_def)
  from fold_reveals [OF this, of ?ok 3]
  have msgs: "messages ?s = ms" and "accessible_messages ?s = take 3 ms"
    using ms0 acc0 len by (simp_all add: run)
  moreover from visible_is_prefix [of ?ok five_pushes_three_reveals ready_state]
  have "accessible_messages ?s = take (length (accessible_messages ?s)) (messages ?s)"
    by (rule conjunct1)
  ultimately have "map msg_text (accessible_messages ?s) = take 3 (map msg_text ms)"
    by (simp add: take_map)
  with ms msgs show ?thesis by simp
qed

subsection \<open>Wrapping brackets\<close>

text \<open>
  Claim C6. A pushed message whose text is wrapped in the corner brackets should be stored
  with exactly the two brackets removed. The text \<open>[U+300C, a, b, c, U+300D]\<close> is stored
  as \<open>[a, b]\<close>: the slice \<open>msg_text[1:-2]\<close> removes the last character of the content
  together with the closing bracket.
\<close>

theorem push_message_wrapped_text:
  "map_sum id (\<lambda>s. map msg_text (messages s))
     (push_message example_now bracketed_message ready_state) = Inr [Some [97, 98]]"
  by (simp add: push_message_def bracketed_message_def Message_def ready_state_def
      connection_manager_init_def get_user_img_def strip_brackets_def left_bracket_def
      right_bracket_def py_slice_def py_bound_def ascii_def)

subsection \<open>The busy flag of start_discussion\<close>

text \<open>
  Claim C8. In every state whose busy flag \<open>is_running_discussion\<close> is set,
  \<open>start_discussion\<close> returns the failure status and leaves the whole state of the
  manager (both message stores, the visible index, the busy flag, the facilitator and
  everything else) as it was.
\<close>

theorem start_discussion_busy:
  "is_running_discussion s \<Longrightarrow> start_discussion env now config hand s = (Inr Failed, s)"
  by (simp add: start_discussion_def)

theorem start_discussion_busy_witness:
  "is_running_discussion busy_state \<and>
   start_discussion example_env example_now example_config (Some example_handover) busy_state =
     (Inr Failed, busy_state)"
proof -
  have b: "is_running_discussion busy_state" by (simp add: busy_state_def)
  from start_discussion_busy [OF b] b show ?thesis by simp
qed

lemma push_message_appends:
  assumes "push_message now m s = Inr s'"
  shows "\<exists>m' t. msg_text m = Some t \<and> msg_text m' = Some (strip_brackets t) \<and>
           s' = s\<lparr>messages := messages s @ [m']\<rparr>"
proof -
  from assms obtain t img where t: "msg_text m = Some t"
    and s': "s' = s\<lparr>messages := messages s @
                  [m\<lparr>msg_text := Some (strip_brackets t),
                     timestamp := Some (timestamp_str now),
                     msg_time := Some (hhmm now), user_img := Some img\<rparr>]\<rparr>"
    by (auto simp: push_message_def split: option.splits if_splits sum.splits)
  show ?thesis
    by (intro exI [of _ "m\<lparr>msg_text := Some (strip_brackets t),
          timestamp := Some (timestamp_str now), msg_time := Some (hhmm now),
          user_img := Some img\<rparr>"] exI [of _ t]) (simp add: t s')
qed

lemma strip_discussion_started:
  "strip_brackets discussion_started_text = discussion_started_text"
  by (simp add: strip_brackets_def discussion_started_text_def left_bracket_def)

lemma try_scheduled:
  assumes "start_discussion_try env now config hand s = (Inr (Succeeded c), s')"
  shows "(\<exists>task. scheduled_tasks s' = scheduled_tasks s @ [task])
       \<and> map msg_text (messages s') = [Some discussion_started_text]"
proof -
  from assms obtain n pcs h s2 f task where
    push: "push_message now
             (Message TSystemInfo (ascii ''system'') discussion_started_text
                (Some (h\<lparr>participants_config := Some pcs\<rparr>)))
             (reset_message_db (s\<lparr>cm_user_name := Some n,
                                  image_dict := Some (image_dict_of pcs)\<rparr>)) = Inr s2"
    and s': "s' = s2\<lparr>discussion_module := Some f,
                     scheduled_tasks := scheduled_tasks (s2\<lparr>discussion_module := Some f\<rparr>) @ [task]\<rparr>"
    by (auto simp: start_discussion_try_def Let_def
             split: sum.splits option.splits prod.splits)
  from push_message_appends [OF push] obtain m' where
    m': "msg_text m' = Some (strip_brackets discussion_started_text)"
    and s2: "s2 = (reset_message_db (s\<lparr>cm_user_name := Some n,
                      image_dict := Some (image_dict_of pcs)\<rparr>))\<lparr>messages :=
               messages (reset_message_db (s\<lparr>cm_user_name := Some n,
                      image_dict := Some (image_dict_of pcs)\<rparr>)) @ [m']\<rparr>"
    by (auto simp: Message_def)
  show ?thesis
    using m' by (simp add: s' s2 reset_message_db_def strip_discussion_started)
qed

text \<open>
  Claim C10, as amended. Whenever \<open>start_discussion\<close> is entered with the busy flag down
  (so that it passes the busy check) and returns or raises, the flag is down again. On
  the success path the debate has only been scheduled: one task has been added to the
  scheduled ones, and the full store holds the opening message and nothing of the debate.
\<close>

theorem start_discussion_clears_flag:
  assumes "\<not> is_running_discussion s"
    and "start_discussion env now config hand s = (r, s')"
  shows "\<not> is_running_discussion s' \<and>
         (\<forall>c. r = Inr (Succeeded c) \<longrightarrow>
            (\<exists>task. scheduled_tasks s' = scheduled_tasks s @ [task]) \<and>
            map msg_text (messages s') = [Some discussion_started_text])"
proof -
  let ?s1 = "s\<lparr>is_running_discussion := True, should_stop := Some False\<rparr>"
  obtain r1 s1' where body: "start_discussion_try env now config hand ?s1 = (r1, s1')"
    by (cases "start_discussion_try env now config hand ?s1")
  with assms have r: "r = r1" and s': "s' = s1'\<lparr>is_running_discussion := False\<rparr>"
    by (simp_all add: start_discussion_def)
  have flag: "\<not> is_running_discussion s'" by (simp add: s')
  have "(\<exists>task. scheduled_tasks s' = scheduled_tasks s @ [task]) \<and>
        map msg_text (messages s') = [Some discussion_started_text]"
    if "r = Inr (Succeeded c)" for c
    using try_scheduled [of env now config hand ?s1 c s1'] body that r
    by (simp add: s')
  with flag show ?thesis by blast
qed

theorem start_discussion_clears_flag_witness:
  "\<not> is_running_discussion ready_state \<and>
   fst (start_discussion example_env example_now example_config (Some example_handover) ready_state)
     = Inr (Succeeded False) \<and>
   \<not> is_running_discussion
      (snd (start_discussion example_env example_now example_config (Some example_handover)
         ready_state)) \<and>
   length (scheduled_tasks
      (snd (start_discussion example_env example_now example_config (Some example_handover)
         ready_state))) = 1"
proof -
  let ?run = "start_discussion example_env example_now example_config (Some example_handover)
                ready_state"
  have idle: "\<not> is_running_discussion ready_state"
    by (simp add: ready_state_def connection_manager_init_def)
  have sched: "scheduled_tasks ready_state = []"
    by (simp add: ready_state_def connection_manager_init_def)
  have res: "fst ?run = Inr (Succeeded False)"
    by (simp add: start_discussion_def start_discussion_try_def example_config_def
        example_datum_def example_env_def participant_config_of_def bind_err_def item_def
        push_message_def Message_def get_user_img_def reset_message_db_def
        discussion_started_text_def load_cache_def facilitator_args_of_def
        discussion_task_of_def idle image_dict_of_def ascii_def Let_def
        strip_brackets_def left_bracket_def)
  have eq: "?run = (fst ?run, snd ?run)" by simp
  note main = start_discussion_clears_flag [OF idle eq]
  from main have "\<not> is_running_discussion (snd ?run)" by (rule conjunct1)
  moreover from main res
  have "\<exists>task. scheduled_tasks (snd ?run) = scheduled_tasks ready_state @ [task]"
    by blast
  ultimately show ?thesis using idle res sched by auto
qed


text \<open>
  The claim as stated also covers the return at the busy check, which is taken before the
  \<open>try\<close> statement and leaves the flag up.
\<close>

theorem start_discussion_flag_counterexample:
  "fst (start_discussion example_env example_now example_config (Some example_handover) busy_state)
     = Inr Failed \<and>
   is_running_discussion
     (snd (start_discussion example_env example_now example_config (Some example_handover) busy_state))"
  by (simp add: start_discussion_def busy_state_def)

subsection \<open>Room ids\<close>

lemma keys_delete: "map fst (AList.delete k al) = removeAll k (map fst al)"
  by (induction al) auto

lemma create_room_id:
  "room_id (fst (create_room now nm db)) =
     (if db = [] then 1 else Max (set (map fst db)) + 1)"
  by (simp add: create_room_def DEFAULT_ROOM_ID_def Let_def)

lemma create_room_db:
  "snd (create_room now nm db) =
     AList.update (room_id (fst (create_room now nm db))) (fst (create_room now nm db)) db"
  by (simp add: create_room_def Let_def)

lemma create_room_greater:
  assumes "k \<in> set (map fst db)"
  shows "k < room_id (fst (create_room now nm db))"
proof -
  from assms have ne: "db \<noteq> []" by auto
  have "k \<le> Max (set (map fst db))" using assms by (intro Max_ge) auto
  with ne show ?thesis by (simp add: create_room_id)
qed

lemma create_keys:
  "map fst (snd (create_room now nm db)) = map fst db @ [room_id (fst (create_room now nm db))]"
proof -
  have "room_id (fst (create_room now nm db)) \<notin> set (map fst db)"
    using create_room_greater [of "room_id (fst (create_room now nm db))" db now nm] by auto
  then show ?thesis
    unfolding create_room_db by (simp add: AList.update_keys image_iff)
qed

lemma create_room_ge_one:
  assumes "list_all (\<lambda>k. 1 \<le> k) (map fst db)"
  shows "1 \<le> room_id (fst (create_room now nm db))"
proof (cases "db = []")
  case True
  then show ?thesis by (simp add: create_room_id)
next
  case False
  then have "hd (map fst db) \<in> set (map fst db)" by (intro hd_in_set) simp
  moreover from this assms have "1 \<le> hd (map fst db)"
    unfolding list_all_iff by blast
  ultimately show ?thesis
    using create_room_greater [of "hd (map fst db)" db now nm] by linarith
qed

lemma delete_room_keys: "map fst (snd (delete_room rid db)) = removeAll rid (map fst db)"
  by (simp add: delete_room_def keys_delete)

lemma ids_init: "ids_from_one (room_manager_init now)"
  by (simp add: ids_from_one_def room_manager_init_def create_room_def DEFAULT_ROOM_ID_def
      Let_def)

lemma ids_step: "ids_from_one st \<Longrightarrow> ids_from_one (rm_step op st)"
proof (cases op; cases st)
  fix now nm db assigned
  assume inv: "ids_from_one st" and op: "op = CreateRoom now nm" and st: "st = (db, assigned)"
  let ?r = "fst (create_room now nm db)"
  have step: "rm_step op st = (snd (create_room now nm db), assigned @ [room_id ?r])"
    by (simp add: op st split: prod.splits)
  have one: "1 \<le> room_id ?r"
    using inv by (intro create_room_ge_one) (simp add: ids_from_one_def st)
  have fresh: "room_id ?r \<notin> set (map fst db)"
    using create_room_greater [of "room_id ?r" db now nm] by auto
  show "ids_from_one (rm_step op st)"
    using inv one fresh unfolding step
    by (auto simp add: ids_from_one_def st create_keys list_all_iff)
next
  fix rid db assigned
  assume inv: "ids_from_one st" and op: "op = DeleteRoom rid" and st: "st = (db, assigned)"
  have "rm_step op st = (snd (delete_room rid db), assigned)" by (simp add: op st)
  with inv show "ids_from_one (rm_step op st)"
    by (auto simp add: ids_from_one_def st delete_room_keys list_all_iff distinct_removeAll)
qed

lemma ids_fold: "ids_from_one st \<Longrightarrow> ids_from_one (fold rm_step ops st)"
  by (induction ops arbitrary: st) (simp_all add: ids_step)

lemma ids_run: "ids_from_one (rm_run now ops)"
  unfolding rm_run_def by (rule ids_fold) (rule ids_init)

lemma create_after_delete_max:
  assumes "db \<noteq> []" and "distinct (map fst db)" and "list_all (\<lambda>k. 1 \<le> k) (map fst db)"
  shows "room_id (fst (create_room now nm (snd (delete_room (Max (set (map fst db))) db))))
           \<le> Max (set (map fst db))"
proof -
  let ?m = "Max (set (map fst db))"
  let ?rest = "snd (delete_room ?m db)"
  have keys: "map fst ?rest = removeAll ?m (map fst db)" by (rule delete_room_keys)
  have m_in: "?m \<in> set (map fst db)" using assms(1) by (intro Max_in) auto
  show ?thesis
  proof (cases "?rest = []")
    case True
    from m_in assms(3) have "1 \<le> ?m" unfolding list_all_iff by blast
    with True show ?thesis by (simp add: create_room_id)
  next
    case False
    then have ne: "set (map fst ?rest) \<noteq> {}" by simp
    have "Max (set (map fst ?rest)) \<in> set (map fst ?rest)"
      using ne by (intro Max_in) auto
    then have "Max (set (map fst ?rest)) \<in> set (map fst db)"
      and "Max (set (map fst ?rest)) \<noteq> ?m"
      unfolding keys by auto
    moreover from this have "Max (set (map fst ?rest)) \<le> ?m" by (intro Max_ge) auto
    ultimately have lt: "Max (set (map fst ?rest)) < ?m" by linarith
    have "room_id (fst (create_room now nm ?rest)) = Max (set (map fst ?rest)) + 1"
      using False by (simp only: create_room_id if_False)
    with lt show ?thesis by linarith
  qed
qed

text \<open>
  Claim C7, as amended. Assigned room ids start at 1. In every registry reached by create
  and delete calls, a newly created room gets the id 1 when the registry is empty and
  otherwise the highest id in the registry plus 1; so its id is at least 1 and strictly
  greater than the id of every room that is in the registry at that moment; the room is
  added to the registry under this id and the id is recorded as assigned. Ids that were
  assigned before are not excluded: the highest id in the registry has been assigned, and
  once its room is deleted the next room gets an id that is not greater than it.
\<close>

theorem create_room_exceeds_registry:
  assumes "rm_run t ops = (db, assigned)"
    and "create_room now nm db = (r, db')"
  shows "hd assigned = 1 \<and>
         room_id r = (if db = [] then 1 else Max (set (map fst db)) + 1) \<and>
         1 \<le> room_id r \<and>
         (\<forall>k \<in> set (map fst db). k < room_id r) \<and>
         map fst db' = map fst db @ [room_id r] \<and>
         snd (rm_run t (ops @ [CreateRoom now nm])) = assigned @ [room_id r] \<and>
         (db \<noteq> [] \<longrightarrow>
            Max (set (map fst db)) \<in> set assigned \<and>
            room_id (fst (create_room now nm (snd (delete_room (Max (set (map fst db))) db))))
              \<le> Max (set (map fst db)))"
proof -
  have inv: "ids_from_one (db, assigned)" using ids_run [of t ops] assms(1) by simp
  have r: "r = fst (create_room now nm db)" and db': "db' = snd (create_room now nm db)"
    using assms(2) by simp_all
  have exact: "room_id r = (if db = [] then 1 else Max (set (map fst db)) + 1)"
    unfolding r by (rule create_room_id)
  have "1 \<le> room_id r"
    unfolding r using inv by (intro create_room_ge_one) (simp add: ids_from_one_def)
  moreover have "\<forall>k \<in> set (map fst db). k < room_id r"
    unfolding r using create_room_greater by blast
  moreover have "map fst db' = map fst db @ [room_id r]"
    unfolding r db' by (rule create_keys)
  moreover have "snd (rm_run t (ops @ [CreateRoom now nm])) = assigned @ [room_id r]"
    using assms by (simp add: rm_run_def)
  moreover have "hd assigned = 1" using inv by (simp add: ids_from_one_def)
  moreover have "Max (set (map fst db)) \<in> set assigned" if "db \<noteq> []"
  proof -
    have "Max (set (map fst db)) \<in> set (map fst db)" using that by (intro Max_in) auto
    with inv show ?thesis unfolding ids_from_one_def list_all_iff by auto
  qed
  moreover have "room_id (fst (create_room now nm
                    (snd (delete_room (Max (set (map fst db))) db)))) \<le> Max (set (map fst db))"
    if "db \<noteq> []"
    using that inv by (intro create_after_delete_max) (simp_all add: ids_from_one_def)
  ultimately show ?thesis using exact by blast
qed

theorem create_room_exceeds_registry_witness:
  "map fst (fst (rm_run example_now [CreateRoom example_now (ascii ''Room 2'')])) = [1, 2] \<and>
   room_id (fst (create_room example_now (ascii ''Room 3'')
      (fst (rm_run example_now [CreateRoom example_now (ascii ''Room 2'')])))) = 3 \<and>
   snd (rm_run example_now
      ([CreateRoom example_now (ascii ''Room 2'')] @ [CreateRoom example_now (ascii ''Room 3'')]))
     = [1, 2, 3] \<and>
   room_id (fst (create_room example_now (ascii ''Room 3'')
      (snd (delete_room 2
         (fst (rm_run example_now [CreateRoom example_now (ascii ''Room 2'')])))))) \<le> 2"
proof -
  let ?ops = "[CreateRoom example_now (ascii ''Room 2'')]"
  let ?st = "rm_run example_now ?ops"
  let ?c = "create_room example_now (ascii ''Room 3'') (fst ?st)"
  have keys: "map fst (fst ?st) = [1, 2]" and assigned: "snd ?st = [1, 2]"
    by (simp_all add: rm_run_def room_manager_init_def create_room_def DEFAULT_ROOM_ID_def
        Let_def)
  from keys have ne: "fst ?st \<noteq> []" by auto
  have mx: "Max (set (map fst (fst ?st))) = 2" unfolding keys by simp
  have e1: "?st = (fst ?st, snd ?st)" and e2: "?c = (fst ?c, snd ?c)" by simp_all
  note main = create_room_exceeds_registry [OF e1 e2]
  from main have "room_id (fst ?c) =
      (if fst ?st = [] then 1 else Max (set (map fst (fst ?st))) + 1)"
    by blast
  with ne have rid: "room_id (fst ?c) = 3" by (simp only: mx if_False)
  from main have "snd (rm_run example_now (?ops @ [CreateRoom example_now (ascii ''Room 3'')])) =
          snd ?st @ [room_id (fst ?c)]"
    by blast
  moreover from main ne
  have "room_id (fst (create_room example_now (ascii ''Room 3'')
          (snd (delete_room (Max (set (map fst (fst ?st)))) (fst ?st))))) \<le>
        Max (set (map fst (fst ?st)))"
    by blast
  ultimately show ?thesis unfolding mx using keys rid assigned by simp
qed

text \<open>
  An id that was assigned before is not excluded: after the room with the highest id has
  been deleted, the next room gets that id again.
\<close>

theorem room_id_reused:
  "snd (rm_run example_now reuse_ops) = [1, 2, 2] \<and>
   \<not> sorted_wrt (<) (snd (rm_run example_now reuse_ops))"
  by (simp add: rm_run_def reuse_ops_def room_manager_init_def create_room_def
      delete_room_def DEFAULT_ROOM_ID_def Let_def)

subsection \<open>The evaluator's score\<close>

lemma py_slice_prefix: "py_slice xs 0 (int n) = take n xs"
  by (simp add: py_slice_def py_bound_def min_def)

lemma py_slice_suffix:
  "ys \<noteq> [] \<Longrightarrow> py_slice (xs @ ys) (- int (length ys)) (int (length (xs @ ys))) = ys"
  by (simp add: py_slice_def py_bound_def)

lemma py_slice_butlast: "py_slice xs 0 (- 1) = butlast xs"
  by (simp add: py_slice_def py_bound_def butlast_conv_take nat_diff_distrib')

lemma np_vstack_uniform:
  assumes "rows \<noteq> []" and "\<And>r. r \<in> set rows \<Longrightarrow> length r = D"
  shows "np_vstack rows = Inr rows"
  using assms by (simp add: np_vstack_def list_all_iff)

lemma embed_both_uniform:
  assumes "first \<noteq> []" and "length second = length first"
    and "\<And>t. length (emb t) = D"
  shows "embed_both emb first second = Inr (map emb first, map emb second)"
proof -
  from assms have ne: "second \<noteq> []" by auto
  have a: "py_slice (map emb (first @ second)) 0 (int (length first)) = map emb first"
    by (simp add: py_slice_prefix)
  have b: "py_slice (map emb (first @ second)) (- int (length second))
             (int (length (map emb (first @ second)))) = map emb second"
    using py_slice_suffix [of "map emb second" "map emb first"] ne by simp
  have va: "np_vstack (map emb first) = Inr (map emb first)"
    using assms by (intro np_vstack_uniform [where D = D]) auto
  have vb: "np_vstack (map emb second) = Inr (map emb second)"
    using assms ne by (intro np_vstack_uniform [where D = D]) auto
  show ?thesis
    unfolding embed_both_def Let_def a b va vb by (simp add: bind_err_def)
qed

lemma traverse_err_map:
  assumes "\<And>x. x \<in> set xs \<Longrightarrow> f x = Inr (g x)"
  shows "traverse_err f xs = Inr (map g xs)"
  using assms by (induction xs) (simp_all add: bind_err_def)

lemma normalized_distance_uniform:
  assumes "length b = length a"
    and "\<And>r. r \<in> set a \<Longrightarrow> length r = D" and "\<And>r. r \<in> set b \<Longrightarrow> length r = D"
  shows "normalized_distance a b = Inr (map2 rms_distance a b)"
proof -
  have sub: "traverse_err (\<lambda>(x, y). np_sub_row x y) (zip a b) =
               Inr (map (\<lambda>(x, y). map2 (-) x y) (zip a b))"
  proof (rule traverse_err_map)
    fix p assume "p \<in> set (zip a b)"
    then have "(fst p, snd p) \<in> set (zip a b)" by simp
    then have "fst p \<in> set a" and "snd p \<in> set b"
      by (rule set_zip_leftD, rule set_zip_rightD)
    then have "length (fst p) = D" "length (snd p) = D"
      using assms(2,3) by blast+
    then show "(case p of (x, y) \<Rightarrow> np_sub_row x y) = Inr (case p of (x, y) \<Rightarrow> map2 (-) x y)"
      by (cases p) (simp add: np_sub_row_def)
  qed
  have "map2 (\<lambda>d n. sqrt (sum_list (map (\<lambda>v. v\<^sup>2) d) / real n))
          (map (\<lambda>(x, y). map2 (-) x y) (zip a b)) (map length a) = map2 rms_distance a b"
    using assms(1)
  proof (induction a arbitrary: b)
    case Nil
    then show ?case by simp
  next
    case (Cons x a)
    then obtain y b' where b: "b = y # b'" by (cases b) auto
    with Cons show ?case
      by (simp add: rms_distance_def o_def case_prod_unfold)
  qed
  then show ?thesis
    unfolding normalized_distance_def sub by (simp add: bind_err_def)
qed

lemma scores_origin_uniform:
  assumes "discussions \<noteq> []" and "\<And>t. length (emb t) = D"
  shows "scores_origin emb discussions = Inr (map (spec_impact emb) discussions)"
proof -
  let ?prev = "map (\<lambda>d. concat (py_slice d 0 (- 1))) discussions"
  let ?all = "map concat discussions"
  have eb: "embed_both emb ?prev ?all = Inr (map emb ?prev, map emb ?all)"
    using assms by (intro embed_both_uniform [where D = D]) auto
  have nd: "normalized_distance (map emb ?all) (map emb ?prev) =
              Inr (map2 rms_distance (map emb ?all) (map emb ?prev))"
    using assms(2) by (intro normalized_distance_uniform [where D = D]) auto
  have "map2 rms_distance (map emb ?all) (map emb ?prev) = map (spec_impact emb) discussions"
    by (induction discussions) (simp_all add: spec_impact_def py_slice_butlast)
  with eb nd show ?thesis
    by (simp add: scores_origin_def bind_err_def)
qed

lemma nth_last_two:
  assumes "2 \<le> length d"
  shows "d ! (length d - 1) = last d" and "d ! (length d - 2) = last (butlast d)"
proof -
  from assms have "d \<noteq> []" by auto
  then show "d ! (length d - 1) = last d" by (simp add: last_conv_nth)
  from assms have "butlast d \<noteq> []" by (cases d) auto
  then have "last (butlast d) = butlast d ! (length (butlast d) - 1)" by (simp add: last_conv_nth)
  also have "\<dots> = d ! (length d - 2)"
    using assms by (simp add: nth_butlast numeral_2_eq_2)
  finally show "d ! (length d - 2) = last (butlast d)" by simp
qed

lemma map2_same: "map2 f (map g xs) (map h xs) = map (\<lambda>x. f (g x) (h x)) xs"
  by (induction xs) simp_all

lemma penalty_pointwise:
  "exp (- rms_distance (emb (if 2 \<le> length d then d ! (length d - 1) else []))
                        (emb (if 2 \<le> length d then d ! (length d - 2) else []))) =
   spec_penalty emb d"
proof (cases "2 \<le> length d")
  case True
  then show ?thesis
    using nth_last_two [OF True] by (simp add: spec_penalty_def)
next
  case False
  then show ?thesis by (simp add: spec_penalty_def)
qed

lemma penalty_uniform:
  assumes "discussions \<noteq> []" and "\<And>t. length (emb t) = D"
  shows "penalty emb discussions = Inr (map (spec_penalty emb) discussions)"
proof -
  let ?last = "last_comment_strs discussions"
  let ?new = "new_comment_strs discussions"
  have eb: "embed_both emb ?last ?new = Inr (map emb ?last, map emb ?new)"
    using assms
    by (intro embed_both_uniform [where D = D])
       (auto simp: last_comment_strs_def new_comment_strs_def)
  have nd: "normalized_distance (map emb ?new) (map emb ?last) =
              Inr (map2 rms_distance (map emb ?new) (map emb ?last))"
    using assms(2)
    by (intro normalized_distance_uniform [where D = D])
       (auto simp: last_comment_strs_def new_comment_strs_def)
  have "map (\<lambda>d. exp (- d)) (map2 rms_distance (map emb ?new) (map emb ?last)) =
          map (spec_penalty emb) discussions"
    unfolding last_comment_strs_def new_comment_strs_def map_map map2_same o_def
    by (rule map_cong [OF refl]) (rule penalty_pointwise)
  with eb nd show ?thesis
    by (simp add: penalty_def bind_err_def)
qed

lemma evaluator_eval_uniform:
  assumes "discussions \<noteq> []" and "\<And>t. length (emb t) = D"
  shows "evaluator_eval emb discussions = Inr (map (spec_score emb) discussions)"
proof -
  have "map2 (*) (map (spec_impact emb) discussions) (map (spec_penalty emb) discussions) =
          map (spec_score emb) discussions"
    by (induction discussions) (simp_all add: spec_score_def)
  then show ?thesis
    using scores_origin_uniform [OF assms] penalty_uniform [OF assms]
    by (simp add: evaluator_eval_def bind_err_def)
qed

lemma rms_distance_self: "rms_distance u u = 0"
proof -
  have "sum_list (map2 (\<lambda>a b. (a - b)\<^sup>2) u u) = (0::real)"
    by (induction u) simp_all
  then show ?thesis by (simp add: rms_distance_def)
qed

lemma spec_penalty_single: "length d < 2 \<Longrightarrow> spec_penalty emb d = 1"
  by (simp add: spec_penalty_def rms_distance_self)


text \<open>
  Claim C3. For every non-empty list of candidate discussions and every embedding of a
  fixed positive dimension, the evaluator returns for each candidate its impact times
  its penalty: the impact is the root-mean-square distance (sum of the squared
  differences, divided by the dimension, then the square root) between the embedding of
  all segments but the last, concatenated, and the embedding of all segments,
  concatenated; the penalty is \<open>exp (- d)\<close> for \<open>d\<close> the same distance between the
  embeddings of the second-to-last and the last segment (of two empty strings when the
  candidate has fewer than two segments).
\<close>

theorem evaluator_eval_score:
  assumes "discussions \<noteq> []" and "\<forall>t. length (emb t) = D" and "0 < D"
  shows "evaluator_eval emb discussions = Inr (map (spec_score emb) discussions)"
  using assms(1,2) by (intro evaluator_eval_uniform [where D = D]) simp_all

theorem evaluator_eval_score_witness:
  "example_discussions \<noteq> [] \<and> (\<forall>t. length (example_embedding t) = 1) \<and> (0::nat) < 1 \<and>
   evaluator_eval example_embedding example_discussions =
     Inr (map (spec_score example_embedding) example_discussions) \<and>
   spec_score example_embedding [[97], [98, 99]] = sqrt 4 * exp (- sqrt 1)"
proof -
  have ne: "example_discussions \<noteq> []" by (simp add: example_discussions_def)
  have dim: "\<forall>t. length (example_embedding t) = 1" by (simp add: example_embedding_def)
  have val: "spec_score example_embedding [[97], [98, 99]] = sqrt 4 * exp (- sqrt 1)"
    by (simp add: spec_score_def spec_impact_def spec_penalty_def rms_distance_def
        example_embedding_def)
  from evaluator_eval_score [OF ne dim] ne dim val show ?thesis by simp
qed

text \<open>
  Claim C9. For a candidate discussion of exactly one segment, whatever the embedding
  (of a fixed positive dimension) and whatever the other candidates of the batch, the
  evaluator compares two empty strings for the coherence, so the candidate's penalty is
  \<open>exp (- 0) = 1\<close> and its score is its impact, not reduced.
\<close>

theorem single_segment_penalty:
  assumes "i < length discussions" and "length (discussions ! i) = 1"
    and "\<forall>t. length (emb t) = D" and "0 < D"
  shows "last_comment_strs discussions ! i = [] \<and> new_comment_strs discussions ! i = [] \<and>
         (\<exists>pe so sc. penalty emb discussions = Inr pe \<and>
            scores_origin emb discussions = Inr so \<and>
            evaluator_eval emb discussions = Inr sc \<and>
            length pe = length discussions \<and>
            pe ! i = exp (- 0) \<and> pe ! i = 1 \<and> sc ! i = so ! i)"
proof -
  from assms(1) have ne: "discussions \<noteq> []" by auto
  have dim: "\<And>t. length (emb t) = D" using assms(3) by simp
  have one: "spec_penalty emb (discussions ! i) = 1"
    using assms(2) by (simp add: spec_penalty_single)
  have strs: "last_comment_strs discussions ! i = []" "new_comment_strs discussions ! i = []"
    using assms(1,2) by (simp_all add: last_comment_strs_def new_comment_strs_def)
  have "map (spec_penalty emb) discussions ! i = 1"
    and "map (spec_score emb) discussions ! i = map (spec_impact emb) discussions ! i"
    using assms(1) one by (simp_all add: spec_score_def)
  with strs show ?thesis
    using penalty_uniform [OF ne dim] scores_origin_uniform [OF ne dim]
      evaluator_eval_uniform [OF ne dim]
    by simp
qed

theorem single_segment_penalty_witness:
  "(0::nat) < length [[[97::nat]]] \<and> length ([[[97::nat]]] ! 0) = 1 \<and>
   (\<forall>t. length (example_embedding t) = 1) \<and> (0::nat) < 1 \<and>
   penalty example_embedding [[[97]]] = Inr [1]"
proof -
  have dim: "\<forall>t. length (example_embedding t) = 1" by (simp add: example_embedding_def)
  from single_segment_penalty [of 0 "[[[97]]]" example_embedding 1, OF _ _ dim]
  obtain pe where "penalty example_embedding [[[97]]] = Inr pe"
    and "length pe = 1" and "pe ! 0 = 1"
    by auto
  moreover from this have "pe = [1]" by (cases pe) simp_all
  ultimately show ?thesis using dim by simp
qed

subsection \<open>The strategist's choice\<close>



lemma np_argmin_single: "np_argmin [d] = Inr 0"
  by (simp add: np_argmin_def)








subsection \<open>The state judge\<close>

lemma judge_eval_first_state:
  assumes "llm_client w request = (Inr response, w')"
    and "sub_response (state_embeds j) (emb response) = Inr diff"
    and "state_names j \<noteq> []"
    and "request = [format_system_message [],
           format_user_message (subst (state_judge_prompt j)
             [(comments_placeholder,
               py_join newline (map (\<lambda>c. [left_bracket] @ c @ [right_bracket]) prev)),
              (options_placeholder, py_join newline (state_names j))])]"
  shows "judge_eval subst llm_client emb j prev w = (Inr (hd (state_names j)), w')"
  using assms
  by (simp add: judge_eval_def Let_def bind_err_def np_argmin_single py_index_def hd_conv_nth)

text \<open>
  Claim C1. The judge should return the state whose cached embedding is nearest to the
  embedding of the answer. With the states \<open>a\<close> and \<open>b\<close> embedded as \<open>[0]\<close> and \<open>[1]\<close>
  and an answer embedded as \<open>[1]\<close>, the nearest state is \<open>b\<close> (distance 0), and \<open>eval\<close>
  returns \<open>a\<close>: \<open>np.linalg.norm\<close> without \<open>axis\<close> gives one number for all states, and
  the \<open>argmin\<close> of one number is 0.
\<close>

theorem judge_eval_returns_first_state:
  "fst (judge_eval (\<lambda>t m. t) answer_b two_state_embedding two_state_judge [] ()) = Inr [97] \<and>
   spec_classify two_state_judge (two_state_embedding [98]) = Inr [98]"
proof -
  have "fst (judge_eval (\<lambda>t m. t) answer_b two_state_embedding two_state_judge [] ()) = Inr [97]"
    by (simp add: judge_eval_def Let_def answer_b_def two_state_judge_def new_state_judge_def
        two_state_embedding_def sub_response_def np_vstack_def np_sub_row_def bind_err_def
        np_argmin_single py_index_def)
  moreover have "spec_classify two_state_judge (two_state_embedding [98]) = Inr [98]"
    by (simp add: spec_classify_def two_state_judge_def new_state_judge_def
        two_state_embedding_def euclidean_distance_def np_argmin_def bind_err_def py_index_def)
  ultimately show ?thesis by simp
qed

end
